theory Spec2Isabelle
  imports
    Main
    "HOL-Library.AList"
    "HOL-Library.List_Lexorder"
    "HOL-Library.Char_ord"
begin

section \<open>pypackagery: packaging a subset of a monorepo\<close>

text \<open>
  A shallow embedding of \<^verbatim>\<open>packagery/__init__.py\<close>. Every Python function is a HOL
  function of the same name; an exception is a value \<open>Inl e\<close> of the result type
  \<open>error + 'a\<close>. A function decorated with \<^verbatim>\<open>icontract\<close> conditions is modelled twice:
  \<open>f_body\<close> is the decorated function's own body, and \<open>f\<close> is what a caller gets,
  the body between the checks of its preconditions and postconditions, each of which raises
  \<^verbatim>\<open>icontract.ViolationError\<close> when it evaluates to false. Conditions declared with
  \<^verbatim>\<open>enabled=icontract.SLOW or READTHEDOCS\<close> are checked only when the flag \<open>slow\<close>
  (the value of that expression at import time) is true.
\<close>

subsection \<open>Exceptions\<close>

type_synonym path = "string list"

datatype error =
    ViolationError
  | NotImplementedError path
  | ValueError string
  | KeyError string
  | IndexError
  | AssertionError string
  | AssertionError_no_file string
  | RelativeToError path path
  | RequirementParseError
  | CsvError
  | LoadFileError path

text \<open>
  \<open>NotImplementedError pth\<close> is the "Unhandled path" error of \<open>resolve_initial_paths\<close>
  with the path it formats into its message; \<open>AssertionError_no_file m\<close> is the
  assertion error of \<open>collect_dependency_graph\<close> about module \<open>m\<close> found without a
  \<^verbatim>\<open>__file__\<close>; \<open>RelativeToError\<close> is the \<^verbatim>\<open>ValueError\<close> of
  \<^verbatim>\<open>pathlib.PurePath.relative_to\<close>; \<open>RequirementParseError\<close>, \<open>CsvError\<close> and
  \<open>LoadFileError\<close> are what the libraries \<^verbatim>\<open>requirements\<close>, \<^verbatim>\<open>csv\<close> and
  \<^verbatim>\<open>modulefinder\<close> raise.
\<close>

subsection \<open>Strings\<close>

definition newline :: char where
  "newline = CHR 0x0A"

definition endswith_newline :: "string \<Rightarrow> bool" where
  "endswith_newline s = (case rev s of [] \<Rightarrow> False | c # _ \<Rightarrow> c = newline)"

text \<open>\<^verbatim>\<open>str.isspace\<close> on the code points below 256, and \<^verbatim>\<open>str.strip()\<close>.\<close>

definition isspace :: "char \<Rightarrow> bool" where
  "isspace c =
     (let n = (of_char c :: nat)
      in (9 \<le> n \<and> n \<le> 13) \<or> (28 \<le> n \<and> n \<le> 32) \<or> n = 133 \<or> n = 160)"

definition strip :: "string \<Rightarrow> string" where
  "strip s = rev (dropWhile isspace (rev (dropWhile isspace s)))"

text \<open>\<^verbatim>\<open>sep.join(parts)\<close> and \<^verbatim>\<open>cell.ljust(width)\<close>.\<close>

fun join :: "string \<Rightarrow> string list \<Rightarrow> string" where
  "join sep [] = []"
| "join sep [x] = x"
| "join sep (x # y # ys) = x @ sep @ join sep (y # ys)"

definition ljust :: "string \<Rightarrow> nat \<Rightarrow> string" where
  "ljust s width = s @ replicate (width - length s) CHR '' ''"

text \<open>\<^verbatim>\<open>str(n)\<close> of a natural number: its decimal digits.\<close>

definition digit :: "nat \<Rightarrow> char" where
  "digit d = ''0123456789'' ! d"

fun str_nat :: "nat \<Rightarrow> string" where
  "str_nat n = (if n < 10 then [digit n] else str_nat (n div 10) @ [digit (n mod 10)])"

declare str_nat.simps [simp del]

text \<open>Running a fallible function over a list, stopping at the first exception.\<close>

fun map_E :: "('a \<Rightarrow> error + 'b) \<Rightarrow> 'a list \<Rightarrow> error + 'b list" where
  "map_E f [] = Inr []"
| "map_E f (x # xs) =
     (case f x of
        Inl e \<Rightarrow> Inl e
      | Inr y \<Rightarrow> (case map_E f xs of Inl e \<Rightarrow> Inl e | Inr ys \<Rightarrow> Inr (y # ys)))"

subsection \<open>The class \<open>Requirement\<close>\<close>

record Requirement =
  name :: string
  line :: string

text \<open>
  \<open>Requirement_body\<close> is \<^verbatim>\<open>Requirement.__init__\<close>; \<open>Requirement_init\<close> is the
  constructor call, which checks the two class invariants after \<^verbatim>\<open>__init__\<close>.
\<close>

definition Requirement_body :: "string \<Rightarrow> string \<Rightarrow> Requirement" where
  "Requirement_body nm ln =
     \<lparr>name = nm,
      line = (if \<not> endswith_newline ln then ln @ [newline] else ln)\<rparr>"

definition Requirement_init :: "string \<Rightarrow> string \<Rightarrow> error + Requirement" where
  "Requirement_init nm ln =
     (let self = Requirement_body nm ln
      in if strip (name self) = name self \<and> endswith_newline (line self)
         then Inr self else Inl ViolationError)"

subsection \<open>\<open>missing_requirements\<close>\<close>

text \<open>
  A \<^verbatim>\<open>Mapping\<close> argument is an association list in the mapping's iteration order, its
  keys pairwise distinct; \<^verbatim>\<open>values()\<close> is \<open>map snd\<close> and \<^verbatim>\<open>key in m\<close> is
  \<open>map_of m key \<noteq> None\<close>. The loop carries \<open>result\<close> and \<open>seen\<close>; the source never
  adds to \<open>seen\<close>.
\<close>

fun missing_requirements_loop ::
  "(string \<times> Requirement) list \<Rightarrow> string list \<Rightarrow> string list \<Rightarrow> string set \<Rightarrow> string list"
where
  "missing_requirements_loop requirements [] result seen = result"
| "missing_requirements_loop requirements (requirement_name # rest) result seen =
     (if map_of requirements requirement_name = None \<and> requirement_name \<notin> seen
      then missing_requirements_loop requirements rest (result @ [requirement_name]) seen
      else missing_requirements_loop requirements rest result seen)"

definition missing_requirements_body ::
  "(string \<times> string) list \<Rightarrow> (string \<times> Requirement) list \<Rightarrow> string list" where
  "missing_requirements_body module_to_requirement requirements =
     missing_requirements_loop requirements (map snd module_to_requirement) [] {}"

definition missing_requirements ::
  "bool \<Rightarrow> (string \<times> string) list \<Rightarrow> (string \<times> Requirement) list \<Rightarrow> error + string list"
where
  "missing_requirements slow module_to_requirement requirements =
     (let result = missing_requirements_body module_to_requirement requirements
      in if slow \<and> length result \<noteq> card (set result) then Inl ViolationError
         else Inr result)"

subsection \<open>\<open>_format_table\<close>\<close>

definition getitem :: "'a list \<Rightarrow> nat \<Rightarrow> error + 'a" where
  "getitem xs i = (if i < length xs then Inr (xs ! i) else Inl IndexError)"

text \<open>\<^verbatim>\<open>max\<close> of a generator that yields at least one value.\<close>

fun py_max :: "nat list \<Rightarrow> nat" where
  "py_max [] = 0"
| "py_max (x # xs) = fold max xs x"

definition col_width :: "string list list \<Rightarrow> nat \<Rightarrow> error + nat" where
  "col_width table i =
     (case map_E (\<lambda>row. getitem row i) table of
        Inl e \<Rightarrow> Inl e
      | Inr cells \<Rightarrow> Inr (py_max (map length cells)))"

text \<open>The loop over \<^verbatim>\<open>enumerate(table)\<close>, started at index \<open>i\<close>.\<close>

fun format_rows :: "nat list \<Rightarrow> nat \<Rightarrow> string list list \<Rightarrow> string list" where
  "format_rows col_widths i [] = []"
| "format_rows col_widths i (row # rest) =
     (let parts = map (\<lambda>(cell, width). ljust cell width) (zip row col_widths);
          ln = join '' | '' parts;
          border = map (\<lambda>width. replicate width CHR ''-'') col_widths
      in (if i = 0 then [ln, join ''-+-'' border] else [ln])
         @ format_rows col_widths (i + 1) rest)"

definition format_table_body :: "string list list \<Rightarrow> error + string" where
  "format_table_body table =
     (case getitem table 0 of
        Inl e \<Rightarrow> Inl e
      | Inr row0 \<Rightarrow>
          (let cols = length row0
           in case map_E (col_width table) [0..<cols] of
                Inl e \<Rightarrow> Inl e
              | Inr col_widths \<Rightarrow> Inr (join [newline] (format_rows col_widths 0 table))))"

definition format_table :: "string list list \<Rightarrow> error + string" where
  "format_table table =
     (if \<not> (table = [] \<or> list_all (\<lambda>row. length row = length (hd table)) table)
      then Inl ViolationError
      else case format_table_body table of
             Inl e \<Rightarrow> Inl e
           | Inr result \<Rightarrow>
               if (if table = [] then result = [] else True) \<and> \<not> endswith_newline result
               then Inr result else Inl ViolationError)"

subsection \<open>Paths\<close>

text \<open>
  A \<^verbatim>\<open>pathlib\<close> path is the list of its \<^verbatim>\<open>parts\<close>; an absolute POSIX path has
  its root as first part. \<open>joinpath\<close> is the operator \<^verbatim>\<open>/\<close>, \<open>relative_to p other\<close>
  is \<^verbatim>\<open>p.relative_to(other)\<close>. Paths compare as their part lists do, which is the order
  of \<^verbatim>\<open>sorted\<close>.
\<close>

definition is_absolute :: "path \<Rightarrow> bool" where
  "is_absolute p = (case p of [] \<Rightarrow> False | r # _ \<Rightarrow> r = ''/'' \<or> r = ''//'')"

definition joinpath :: "path \<Rightarrow> path \<Rightarrow> path" where
  "joinpath p q = (if is_absolute q then q else p @ q)"

definition relative_to :: "path \<Rightarrow> path \<Rightarrow> error + path" where
  "relative_to p other =
     (if take (length other) p = other \<and> \<not> (other = [] \<and> is_absolute p)
      then Inr (drop (length other) p)
      else Inl (RelativeToError p other))"

subsection \<open>\<open>resolve_initial_paths\<close>\<close>

text \<open>
  The file system as the function reads it: \<open>glob_py pth\<close> is what
  \<^verbatim>\<open>pth.glob("**/*.py")\<close> yields.
\<close>

record filesystem =
  is_file :: "path \<Rightarrow> bool"
  is_dir :: "path \<Rightarrow> bool"
  glob_py :: "path \<Rightarrow> path list"

text \<open>The inner loop over \<^verbatim>\<open>sorted(pth.glob("**/*.py"))\<close>.\<close>

fun add_subpaths :: "path list \<Rightarrow> path list \<Rightarrow> path set \<Rightarrow> path list \<times> path set" where
  "add_subpaths [] result seen_pths = (result, seen_pths)"
| "add_subpaths (subpth # rest) result seen_pths =
     (if subpth \<notin> seen_pths
      then add_subpaths rest (result @ [subpth]) (insert subpth seen_pths)
      else add_subpaths rest result seen_pths)"

fun resolve_initial_paths_loop ::
  "filesystem \<Rightarrow> path list \<Rightarrow> path list \<Rightarrow> path set \<Rightarrow> error + path list" where
  "resolve_initial_paths_loop fs [] result seen_pths = Inr result"
| "resolve_initial_paths_loop fs (pth # rest) result seen_pths =
     (if is_file fs pth
      then resolve_initial_paths_loop fs rest (result @ [pth]) (insert pth seen_pths)
      else if is_dir fs pth
      then (case add_subpaths (sort (glob_py fs pth)) result seen_pths of
              (result', seen_pths') \<Rightarrow> resolve_initial_paths_loop fs rest result' seen_pths')
      else Inl (NotImplementedError pth))"

definition resolve_initial_paths_body :: "filesystem \<Rightarrow> path list \<Rightarrow> error + path list" where
  "resolve_initial_paths_body fs initial_paths =
     (if initial_paths = [] then Inr []
      else resolve_initial_paths_loop fs initial_paths [] {})"

definition resolve_initial_paths ::
  "bool \<Rightarrow> filesystem \<Rightarrow> path list \<Rightarrow> error + path list" where
  "resolve_initial_paths slow fs initial_paths =
     (if \<not> list_all is_absolute initial_paths then Inl ViolationError
      else case resolve_initial_paths_body fs initial_paths of
             Inl e \<Rightarrow> Inl e
           | Inr result \<Rightarrow>
               if list_all (is_file fs) result
                  \<and> list_all is_absolute result
                  \<and> (if initial_paths \<noteq> [] then length initial_paths \<le> length result
                      else result = [])
                  \<and> (if slow
                      then list_all (\<lambda>pth. pth \<in> set result) (filter (is_file fs) initial_paths)
                      else True)
               then Inr result else Inl ViolationError)"

subsection \<open>\<open>parse_requirements\<close>\<close>

text \<open>
  What the library call \<^verbatim>\<open>requirements_parser.parse(text)\<close> yields is the argument
  \<open>reqs\<close>: one element for each requirement the generator produces, in the order of the
  lines of \<^verbatim>\<open>text\<close>, \<open>Inr req\<close> for a parsed requirement and \<open>Inl e\<close> where the
  generator raises \<open>e\<close> instead. Of a parsed requirement the function reads \<^verbatim>\<open>name\<close>,
  \<^verbatim>\<open>line\<close> and \<^verbatim>\<open>uri\<close>. The result is a \<^verbatim>\<open>collections.OrderedDict\<close>: an
  association list in insertion order, where assigning to a key that is present replaces
  its value in place and assigning to a new key appends it (\<open>AList.update\<close>).
\<close>

record parsed_requirement =
  parsed_name :: "string option"
  parsed_line :: string
  parsed_uri :: "string option"

fun parse_requirements_loop ::
  "(error + parsed_requirement) list \<Rightarrow> string \<Rightarrow> (string \<times> Requirement) list
   \<Rightarrow> error + (string \<times> Requirement) list" where
  "parse_requirements_loop [] filename result = Inr result"
| "parse_requirements_loop (Inl e # rest) filename result =
     (if e = RequirementParseError
      then Inl (ValueError (''Invalid requirements in file '' @ filename))
      else Inl e)"
| "parse_requirements_loop (Inr req # rest) filename result =
     (case parsed_name req of
        None \<Rightarrow>
          Inl (ValueError (''The name is missing in the requirement from the file '' @ filename
                 @ '': '' @ parsed_line req @ '' (did you specify the egg fragment?)''))
      | Some nm \<Rightarrow>
          (case Requirement_init nm (parsed_line req) of
             Inl e \<Rightarrow> Inl e
           | Inr requirement \<Rightarrow>
               parse_requirements_loop rest filename
                 (AList.update (name requirement) requirement result)))"

definition parse_requirements_body ::
  "(error + parsed_requirement) list \<Rightarrow> string \<Rightarrow> error + (string \<times> Requirement) list" where
  "parse_requirements_body reqs filename = parse_requirements_loop reqs filename []"

definition parse_requirements ::
  "(error + parsed_requirement) list \<Rightarrow> string \<Rightarrow> error + (string \<times> Requirement) list" where
  "parse_requirements reqs filename =
     (case parse_requirements_body reqs filename of
        Inl e \<Rightarrow> Inl e
      | Inr result \<Rightarrow>
          if list_all (\<lambda>(key, val). name val = key) result then Inr result
          else Inl ViolationError)"

subsection \<open>\<open>parse_module_to_requirement\<close>\<close>

text \<open>
  What \<^verbatim>\<open>csv.reader(stream, dialect='excel-tab')\<close> yields is the argument \<open>rows\<close>:
  \<open>Some row\<close> for each row, \<open>None\<close> where the reader raises \<^verbatim>\<open>csv.Error\<close>.
  \<open>repr_row row\<close> is what \<^verbatim>\<open>str.format\<close> writes for the list \<^verbatim>\<open>row\<close>.
  \<open>columns_message\<close> is the message template with its four replacement fields.
\<close>

definition columns_message :: "string \<Rightarrow> string \<Rightarrow> string \<Rightarrow> string \<Rightarrow> string" where
  "columns_message a b c d =
     ''Expected two columns, but got '' @ a @ '' on line '' @ b @ '' in '' @ c @ '': '' @ d"

fun parse_module_to_requirement_loop ::
  "(string list \<Rightarrow> string) \<Rightarrow> string \<Rightarrow> nat \<Rightarrow> string list option list
   \<Rightarrow> (string \<times> string) list \<Rightarrow> error + (string \<times> string) list" where
  "parse_module_to_requirement_loop repr_row filename i [] result = Inr result"
| "parse_module_to_requirement_loop repr_row filename i (None # rest) result = Inl CsvError"
| "parse_module_to_requirement_loop repr_row filename i (Some row # rest) result =
     (if length row \<noteq> 2
      then Inl (ValueError
             (columns_message (str_nat (i + 1)) (str_nat (length row)) filename (repr_row row)))
      else (let module_name = row ! 0; requirement_name = row ! 1
            in parse_module_to_requirement_loop repr_row filename (i + 1) rest
                 (AList.update module_name requirement_name result)))"

definition parse_module_to_requirement_body ::
  "(string list \<Rightarrow> string) \<Rightarrow> string list option list \<Rightarrow> string
   \<Rightarrow> error + (string \<times> string) list" where
  "parse_module_to_requirement_body repr_row rows filename =
     parse_module_to_requirement_loop repr_row filename 0 rows []"

definition parse_module_to_requirement ::
  "(string list \<Rightarrow> string) \<Rightarrow> string list option list \<Rightarrow> string
   \<Rightarrow> error + (string \<times> string) list" where
  "parse_module_to_requirement repr_row rows filename =
     (case parse_module_to_requirement_body repr_row rows filename of
        Inl e \<Rightarrow> Inl e
      | Inr result \<Rightarrow>
          if list_all (\<lambda>(key, val). \<not> endswith_newline key) result
             \<and> list_all (\<lambda>(key, val). \<not> endswith_newline val) result
          then Inr result else Inl ViolationError)"

subsection \<open>\<open>collect_dependency_graph\<close>\<close>

text \<open>
  \<open>rel_paths\<close> of a \<open>Package\<close> is a Python \<^verbatim>\<open>set\<close>; it is kept here as the list
  of its elements in the order in which they were added, so that \<open>set_add\<close> is
  \<^verbatim>\<open>set.add\<close>, \<open>\<in> set\<close> is \<^verbatim>\<open>in\<close> and \<open>card (set _)\<close> is \<^verbatim>\<open>len\<close>.
  \<open>requirements\<close> is a \<^verbatim>\<open>dict\<close> in insertion order. The field \<^verbatim>\<open>name\<close> of
  \<^verbatim>\<open>UnresolvedModule\<close> is \<open>um_name\<close>.
\<close>

record UnresolvedModule =
  um_name :: string
  imported_from :: path

record Package =
  requirements :: "(string \<times> Requirement) list"
  rel_paths :: "path list"
  unresolved_modules :: "UnresolvedModule list"

definition Package_init :: Package where
  "Package_init = \<lparr>requirements = [], rel_paths = [], unresolved_modules = []\<rparr>"

definition set_add :: "'a \<Rightarrow> 'a list \<Rightarrow> 'a list" where
  "set_add x xs = (if x \<in> set xs then xs else xs @ [x])"

text \<open>
  What \<^verbatim>\<open>modulefinder.ModuleFinder(path=[root_dir]).load_file(pathname)\<close> leaves in
  the finder: the keys of \<^verbatim>\<open>badmodules\<close>, and the items of \<^verbatim>\<open>modules\<close> as pairs of
  the module's name and its \<^verbatim>\<open>__file__\<close>, both in iteration order. The library call is
  the parameter \<open>load_file root_dir pathname\<close>, \<open>None\<close> when it raises. The set
  \<^verbatim>\<open>_STDLIB_SET\<close> is the parameter \<open>stdlib\<close>.
\<close>

record ModuleFinder =
  badmodules :: "string list"
  modules :: "(string \<times> path option) list"

type_synonym finder = "path \<Rightarrow> path \<Rightarrow> ModuleFinder option"

text \<open>The loop over \<^verbatim>\<open>mfder.badmodules\<close>.\<close>

fun collect_badmodules ::
  "(string \<times> Requirement) list \<Rightarrow> (string \<times> string) list \<Rightarrow> string set \<Rightarrow> path
   \<Rightarrow> string list \<Rightarrow> Package \<Rightarrow> string set \<Rightarrow> error + Package \<times> string set" where
  "collect_badmodules registry module_to_requirement stdlib rel_pth [] package
       unresolved_module_set = Inr (package, unresolved_module_set)"
| "collect_badmodules registry module_to_requirement stdlib rel_pth (module_name # rest) package
       unresolved_module_set =
     (case map_of module_to_requirement module_name of
        Some req_name \<Rightarrow>
          (if map_of (requirements package) req_name = None
           then (case map_of registry req_name of
                   None \<Rightarrow> Inl (KeyError req_name)
                 | Some req \<Rightarrow>
                     collect_badmodules registry module_to_requirement stdlib rel_pth rest
                       (package\<lparr>requirements := requirements package @ [(req_name, req)]\<rparr>)
                       unresolved_module_set)
           else collect_badmodules registry module_to_requirement stdlib rel_pth rest package
                  unresolved_module_set)
      | None \<Rightarrow>
          (if module_name \<in> stdlib
           then collect_badmodules registry module_to_requirement stdlib rel_pth rest package
                  unresolved_module_set
           else if module_name \<notin> unresolved_module_set
           then collect_badmodules registry module_to_requirement stdlib rel_pth rest
                  (package\<lparr>unresolved_modules := unresolved_modules package
                       @ [\<lparr>um_name = module_name, imported_from = rel_pth\<rparr>]\<rparr>)
                  (insert module_name unresolved_module_set)
           else collect_badmodules registry module_to_requirement stdlib rel_pth rest package
                  unresolved_module_set))"

text \<open>The loop over \<^verbatim>\<open>mfder.modules.items()\<close>.\<close>

fun collect_modules ::
  "string set \<Rightarrow> path \<Rightarrow> path \<Rightarrow> (string \<times> path option) list \<Rightarrow> Package \<Rightarrow> path list
   \<Rightarrow> error + Package \<times> path list" where
  "collect_modules stdlib root_dir rel_pth [] package stack = Inr (package, stack)"
| "collect_modules stdlib root_dir rel_pth ((module_name, file) # rest) package stack =
     (case file of
        None \<Rightarrow>
          (if module_name \<notin> stdlib then Inl (AssertionError_no_file module_name)
           else collect_modules stdlib root_dir rel_pth rest package stack)
      | Some f \<Rightarrow>
          (case relative_to f root_dir of
             Inl e \<Rightarrow> Inl e
           | Inr module_rel_pth \<Rightarrow>
               collect_modules stdlib root_dir rel_pth rest
                 (package\<lparr>rel_paths := set_add rel_pth (rel_paths package)\<rparr>)
                 (stack @ [module_rel_pth])))"

text \<open>
  One iteration of the \<^verbatim>\<open>while\<close> loop on a non-empty stack: the exception it raises,
  or the package, the stack and \<^verbatim>\<open>unresolved_module_set\<close> it leaves. \<^verbatim>\<open>stack.pop()\<close>
  takes the last element.
\<close>

definition collect_step ::
  "finder \<Rightarrow> string set \<Rightarrow> path \<Rightarrow> (string \<times> Requirement) list \<Rightarrow> (string \<times> string) list
   \<Rightarrow> Package \<Rightarrow> path list \<Rightarrow> string set \<Rightarrow> error + Package \<times> path list \<times> string set"
where
  "collect_step load_file stdlib root_dir registry module_to_requirement package stack
       unresolved_module_set =
     (let rel_pth = last stack; stack1 = butlast stack
      in if is_absolute rel_pth
         then Inl (AssertionError ''All visited paths must be relative.'')
         else let len_rel_paths_before = card (set (rel_paths package))
           in if rel_pth \<in> set (rel_paths package)
              then Inr (package, stack1, unresolved_module_set)
              else let pth = joinpath root_dir rel_pth
                in case load_file root_dir pth of
                     None \<Rightarrow> Inl (LoadFileError pth)
                   | Some mfder \<Rightarrow>
                       (case collect_badmodules registry module_to_requirement stdlib rel_pth
                               (badmodules mfder) package unresolved_module_set of
                          Inl e \<Rightarrow> Inl e
                        | Inr (package1, unresolved_module_set1) \<Rightarrow>
                            (case collect_modules stdlib root_dir rel_pth (modules mfder)
                                    package1 stack1 of
                               Inl e \<Rightarrow> Inl e
                             | Inr (package2, stack2) \<Rightarrow>
                                 if len_rel_paths_before + 1 \<noteq> card (set (rel_paths package2))
                                 then Inl (AssertionError
                                        ''Expected to add only one dependency at a step.'')
                                 else Inr (package2, stack2, unresolved_module_set1))))"

text \<open>
  The \<^verbatim>\<open>while stack:\<close> loop. It need not end (the finder may report new files for
  ever), so its value is an option: \<open>None\<close> when the loop runs for ever, \<open>Some (Inl e)\<close>
  when an iteration raises \<open>e\<close>, \<open>Some (Inr package)\<close> when the stack runs empty.
\<close>

partial_function (option) collect_loop ::
  "finder \<Rightarrow> string set \<Rightarrow> path \<Rightarrow> (string \<times> Requirement) list \<Rightarrow> (string \<times> string) list
   \<Rightarrow> Package \<Rightarrow> path list \<Rightarrow> string set \<Rightarrow> (error + Package) option"
where
  "collect_loop load_file stdlib root_dir registry module_to_requirement package stack
       unresolved_module_set =
     (if stack = [] then Some (Inr package)
      else case collect_step load_file stdlib root_dir registry module_to_requirement package
                  stack unresolved_module_set of
             Inl e \<Rightarrow> Some (Inl e)
           | Inr (package', stack', unresolved_module_set') \<Rightarrow>
               collect_loop load_file stdlib root_dir registry module_to_requirement package'
                 stack' unresolved_module_set')"

definition collect_dependency_graph_body ::
  "finder \<Rightarrow> string set \<Rightarrow> path \<Rightarrow> path list \<Rightarrow> (string \<times> Requirement) list
   \<Rightarrow> (string \<times> string) list \<Rightarrow> (error + Package) option" where
  "collect_dependency_graph_body load_file stdlib root_dir seeds registry module_to_requirement =
     collect_loop load_file stdlib root_dir registry module_to_requirement Package_init seeds {}"

text \<open>
  The decorated function. Its parameters \<^verbatim>\<open>rel_paths\<close> and \<^verbatim>\<open>requirements\<close> are
  \<open>seeds\<close> and \<open>registry\<close> here, the names being those of the fields of \<open>Package\<close>.
\<close>

definition collect_dependency_graph ::
  "bool \<Rightarrow> finder \<Rightarrow> string set \<Rightarrow> path \<Rightarrow> path list \<Rightarrow> (string \<times> Requirement) list
   \<Rightarrow> (string \<times> string) list \<Rightarrow> (error + Package) option" where
  "collect_dependency_graph slow load_file stdlib root_dir seeds registry module_to_requirement =
     (if \<not> list_all (\<lambda>rel_pth. \<not> is_absolute rel_pth) seeds then Some (Inl ViolationError)
      else if slow \<and> missing_requirements slow module_to_requirement registry \<noteq> Inr []
      then Some (Inl ViolationError)
      else case collect_dependency_graph_body load_file stdlib root_dir seeds registry
                  module_to_requirement of
             None \<Rightarrow> None
           | Some (Inl e) \<Rightarrow> Some (Inl e)
           | Some (Inr result) \<Rightarrow>
               if slow \<and> \<not> (list_all (\<lambda>pth. pth \<in> set (rel_paths result)) seeds
                             \<and> list_all (\<lambda>(key, req). map_of registry (name req) \<noteq> None)
                                 (requirements result))
               then Some (Inl ViolationError)
               else Some (Inr result))"

subsection \<open>Notions used in the properties, and example inputs\<close>

text \<open>The elements of a list in the order of their first occurrences.\<close>

definition first_occurrences :: "'a list \<Rightarrow> 'a list" where
  "first_occurrences xs = rev (remdups (rev xs))"

text \<open>A string ends with exactly one newline.\<close>

definition single_trailing_newline :: "string \<Rightarrow> bool" where
  "single_trailing_newline s = (endswith_newline s \<and> \<not> endswith_newline (butlast s))"

text \<open>
  A file system with the one directory \<^verbatim>\<open>/d\<close>, which holds no \<^verbatim>\<open>*.py\<close> file, and
  one with the directory \<^verbatim>\<open>/d\<close> holding the single file \<^verbatim>\<open>/d/f.py\<close>.
\<close>

definition fs_empty_dir :: filesystem where
  "fs_empty_dir =
     \<lparr>is_file = (\<lambda>pth. False),
      is_dir = (\<lambda>pth. pth = [''/'', ''d'']),
      glob_py = (\<lambda>pth. [])\<rparr>"

definition fs_one_file :: filesystem where
  "fs_one_file =
     \<lparr>is_file = (\<lambda>pth. pth = [''/'', ''d'', ''f.py'']),
      is_dir = (\<lambda>pth. pth = [''/'', ''d'']),
      glob_py = (\<lambda>pth. if pth = [''/'', ''d''] then [[''/'', ''d'', ''f.py'']] else [])\<rparr>"

text \<open>
  The modules that a file contributes to \<open>unresolved_modules\<close> when it is the first to
  name them: those of its \<^verbatim>\<open>badmodules\<close> that the module map does not hold and the
  standard library does not have. A file imports such a module when the module is in this
  list.
\<close>

definition unclassified ::
  "finder \<Rightarrow> string set \<Rightarrow> path \<Rightarrow> (string \<times> string) list \<Rightarrow> path \<Rightarrow> string list" where
  "unclassified load_file stdlib root_dir module_to_requirement rel_pth =
     (case load_file root_dir (joinpath root_dir rel_pth) of
        None \<Rightarrow> []
      | Some mfder \<Rightarrow>
          filter (\<lambda>m. map_of module_to_requirement m = None \<and> m \<notin> stdlib) (badmodules mfder))"

text \<open>
  The invariant of the \<^verbatim>\<open>while\<close> loop about the unresolved modules:
  \<^verbatim>\<open>unresolved_module_set\<close> holds the names of the recorded modules, no name is recorded
  twice, every recorded module names the first visited file that imports it, and every
  module that a visited file imports is recorded.
\<close>

definition attribution_inv ::
  "finder \<Rightarrow> string set \<Rightarrow> path \<Rightarrow> (string \<times> string) list \<Rightarrow> Package \<Rightarrow> string set \<Rightarrow> bool" where
  "attribution_inv load_file stdlib root_dir m2r package uset =
     (uset = um_name ` set (unresolved_modules package)
      \<and> distinct (map um_name (unresolved_modules package))
      \<and> (\<forall>um \<in> set (unresolved_modules package).
            find (\<lambda>p. um_name um \<in> set (unclassified load_file stdlib root_dir m2r p))
              (rel_paths package) = Some (imported_from um))
      \<and> (\<forall>p \<in> set (rel_paths package).
            set (unclassified load_file stdlib root_dir m2r p) \<subseteq> uset))"

text \<open>
  A code base of two files that import each other: \<^verbatim>\<open>a.py\<close> imports \<^verbatim>\<open>b\<close> and
  \<^verbatim>\<open>missing\<close>; \<^verbatim>\<open>b.py\<close> imports \<^verbatim>\<open>a\<close>, \<^verbatim>\<open>missing\<close>, \<^verbatim>\<open>PIL\<close>,
  \<^verbatim>\<open>os.path\<close> and \<^verbatim>\<open>other\<close>. \<open>package_cycle\<close> is the package collected from the
  seed \<^verbatim>\<open>a.py\<close> with the requirement \<open>pillow\<close> mapped from \<^verbatim>\<open>PIL\<close>.
\<close>

definition finder_cycle :: finder where
  "finder_cycle root_dir pathname =
     (if pathname = root_dir @ [''a.py'']
      then Some \<lparr>badmodules = [''missing''],
                 modules = [(''a'', Some (root_dir @ [''a.py''])),
                            (''b'', Some (root_dir @ [''b.py'']))]\<rparr>
      else if pathname = root_dir @ [''b.py'']
      then Some \<lparr>badmodules = [''missing'', ''PIL'', ''os.path'', ''other''],
                 modules = [(''b'', Some (root_dir @ [''b.py''])),
                            (''a'', Some (root_dir @ [''a.py'']))]\<rparr>
      else None)"

definition pillow :: Requirement where
  "pillow = \<lparr>name = ''pillow'', line = ''pillow==5.2.0'' @ [newline]\<rparr>"

definition package_cycle :: Package where
  "package_cycle =
     \<lparr>requirements = [(''pillow'', pillow)],
      rel_paths = [[''a.py''], [''b.py'']],
      unresolved_modules =
        [\<lparr>um_name = ''missing'', imported_from = [''a.py'']\<rparr>,
         \<lparr>um_name = ''other'', imported_from = [''b.py'']\<rparr>]\<rparr>"

section \<open>Properties\<close>

text \<open>
  C10. Called with the empty table, \<open>_format_table\<close> does not return the empty string
  that its postcondition promises: the precondition admits the empty table, and the first
  statement of the body, \<^verbatim>\<open>cols = len(table[0])\<close>, raises \<^verbatim>\<open>IndexError\<close>.
\<close>

theorem format_table_empty_raises:
  "format_table [] = Inl IndexError"
  by (simp add: format_table_def format_table_body_def getitem_def)

text \<open>
  C9. \<open>missing_requirements\<close> does list a package twice: two modules mapped to the same
  package that the registry lacks give that package twice, because nothing is ever added
  to \<open>seen\<close>. With the slow contracts off the list with the duplicate is returned; with
  them on, the function's own postcondition \<^verbatim>\<open>len(result) == len(set(result))\<close> fails.
\<close>

theorem missing_requirements_duplicate:
  "missing_requirements_body [(''a'', ''p''), (''b'', ''p'')] [] = [''p'', ''p'']
   \<and> missing_requirements False [(''a'', ''p''), (''b'', ''p'')] [] = Inr [''p'', ''p'']
   \<and> missing_requirements True [(''a'', ''p''), (''b'', ''p'')] [] = Inl ViolationError"
  by (simp add: missing_requirements_def missing_requirements_body_def)

text \<open>
  C8 does not hold as stated: a line that already ends with two newlines is stored
  unchanged, with both of them.
\<close>

theorem Requirement_two_newlines:
  "Requirement_init ''a'' [CHR ''a'', newline, newline]
     = Inr \<lparr>name = ''a'', line = [CHR ''a'', newline, newline]\<rparr>
   \<and> \<not> single_trailing_newline [CHR ''a'', newline, newline]"
  by (simp add: Requirement_init_def Requirement_body_def endswith_newline_def strip_def
      isspace_def single_trailing_newline_def Let_def)

text \<open>
  C8, amended. A constructed \<open>Requirement\<close> stores a line that ends with a newline: the
  given line itself when that ends with a newline already, the given line and one newline
  otherwise. So the stored line has exactly one trailing newline unless the given line
  ends with two or more.
\<close>

theorem Requirement_line_newline:
  assumes "Requirement_init nm ln = Inr r"
  shows "name r = nm
    \<and> line r = (if endswith_newline ln then ln else ln @ [newline])
    \<and> endswith_newline (line r)
    \<and> (single_trailing_newline (line r)
         \<longleftrightarrow> \<not> (endswith_newline ln \<and> endswith_newline (butlast ln)))"
  using assms
  by (auto simp add: Requirement_init_def Requirement_body_def Let_def
      single_trailing_newline_def endswith_newline_def split: if_splits)

theorem Requirement_line_newline_witness:
  "Requirement_init ''a'' ''a==1'' = Inr \<lparr>name = ''a'', line = ''a==1'' @ [newline]\<rparr>
   \<and> single_trailing_newline (''a==1'' @ [newline])"
proof -
  have h: "Requirement_init ''a'' ''a==1'' = Inr \<lparr>name = ''a'', line = ''a==1'' @ [newline]\<rparr>"
    by (simp add: Requirement_init_def Requirement_body_def endswith_newline_def strip_def
        isspace_def Let_def newline_def)
  from Requirement_line_newline [OF h] show ?thesis
    using h by (simp add: endswith_newline_def newline_def)
qed

text \<open>
  C7. The error message of \<open>parse_module_to_requirement\<close> has the two numbers in each
  other's place: for the rows \<^verbatim>\<open>a<TAB>b\<close> and \<^verbatim>\<open>c\<close>, the second of which has one
  field, it reads "got 2 on line 1", the row's number where the template announces the
  column count and the column count where it announces the line.
\<close>

theorem parse_module_to_requirement_message_swapped:
  "parse_module_to_requirement repr_row [Some [''a'', ''b''], Some [''c'']] ''<unknown>''
     = Inl (ValueError
         (''Expected two columns, but got 2 on line 1 in <unknown>: '' @ repr_row [''c'']))"
  by (simp add: parse_module_to_requirement_def parse_module_to_requirement_body_def
      columns_message_def str_nat.simps digit_def)

text \<open>
  C5. For the single input \<^verbatim>\<open>/d\<close>, an existing directory without \<^verbatim>\<open>*.py\<close> files, the
  body of \<open>resolve_initial_paths\<close> computes the empty list, shorter than the input; the
  function's postcondition on the lengths then fails.
\<close>

theorem resolve_initial_paths_empty_dir:
  "resolve_initial_paths_body fs_empty_dir [[''/'', ''d'']] = Inr []
   \<and> resolve_initial_paths slow fs_empty_dir [[''/'', ''d'']] = Inl ViolationError"
  by (simp add: resolve_initial_paths_def resolve_initial_paths_body_def fs_empty_dir_def
      is_absolute_def)

text \<open>
  C6 does not hold as stated: the file \<^verbatim>\<open>/d/f.py\<close> passed twice, or passed after
  its directory \<^verbatim>\<open>/d\<close>, is twice in the output.
\<close>

theorem resolve_initial_paths_duplicate:
  "resolve_initial_paths True fs_one_file [[''/'', ''d'', ''f.py''], [''/'', ''d'', ''f.py'']]
     = Inr [[''/'', ''d'', ''f.py''], [''/'', ''d'', ''f.py'']]
   \<and> resolve_initial_paths True fs_one_file [[''/'', ''d''], [''/'', ''d'', ''f.py'']]
     = Inr [[''/'', ''d'', ''f.py''], [''/'', ''d'', ''f.py'']]
   \<and> \<not> distinct [[''/'', ''d'', ''f.py''], [''/'', ''d'', ''f.py'']]"
  by (simp add: resolve_initial_paths_def resolve_initial_paths_body_def fs_one_file_def
      is_absolute_def)

text \<open>
  The inner loop keeps \<open>seen_pths\<close> equal to the set of the result and adds a path only
  where it is absent.
\<close>

lemma add_subpaths_count:
  "add_subpaths subs result seen = (result', seen') \<Longrightarrow> seen = set result \<Longrightarrow>
   seen' = set result' \<and> count_list result p \<le> count_list result' p
   \<and> count_list result' p \<le> max 1 (count_list result p)"
proof (induction subs arbitrary: result seen)
  case Nil
  then show ?case by auto
next
  case (Cons s subs)
  show ?case
  proof (cases "s \<in> seen")
    case True
    with Cons.prems have "add_subpaths subs result seen = (result', seen')" by simp
    from Cons.IH [OF this Cons.prems(2)] show ?thesis .
  next
    case False
    with Cons.prems
    have a: "add_subpaths subs (result @ [s]) (insert s seen) = (result', seen')" by simp
    have b: "insert s seen = set (result @ [s])" using Cons.prems(2) by simp
    from Cons.IH [OF a b] have c: "seen' = set result'"
      and lo: "count_list (result @ [s]) p \<le> count_list result' p"
      and d: "count_list result' p \<le> max 1 (count_list (result @ [s]) p)" by auto
    have "count_list (result @ [s]) p \<le> max 1 (count_list result p)"
      using False Cons.prems(2) by (auto simp: count_list_0_iff)
    moreover have "count_list result p \<le> count_list (result @ [s]) p" by simp
    ultimately show ?thesis using c lo d by auto
  qed
qed

lemma resolve_initial_paths_loop_count:
  "resolve_initial_paths_loop fs ps result seen = Inr res \<Longrightarrow> seen = set result \<Longrightarrow>
   count_list result p + count_list (filter (is_file fs) ps) p \<le> count_list res p
   \<and> count_list res p \<le> max 1 (count_list result p) + count_list (filter (is_file fs) ps) p"
proof (induction ps arbitrary: result seen)
  case Nil
  then show ?case by auto
next
  case (Cons q ps)
  show ?case
  proof (cases "is_file fs q")
    case True
    with Cons.prems
    have a: "resolve_initial_paths_loop fs ps (result @ [q]) (insert q seen) = Inr res"
      by simp
    have b: "insert q seen = set (result @ [q])" using Cons.prems(2) by simp
    from Cons.IH [OF a b] show ?thesis using True by auto
  next
    case False
    show ?thesis
    proof (cases "is_dir fs q")
      case True
      obtain r' s' where e: "add_subpaths (sort (glob_py fs q)) result seen = (r', s')"
        by (cases "add_subpaths (sort (glob_py fs q)) result seen")
      with Cons.prems False True
      have a: "resolve_initial_paths_loop fs ps r' s' = Inr res" by simp
      from add_subpaths_count [OF e Cons.prems(2)] have b: "s' = set r'"
        and lo: "count_list result p \<le> count_list r' p"
        and c: "count_list r' p \<le> max 1 (count_list result p)" by auto
      from Cons.IH [OF a b] lo c show ?thesis using False by auto
    next
      case neither: False
      with False Cons.prems show ?thesis by simp
    qed
  qed
qed

text \<open>
  C6, amended. Only the files that come from expanding a directory are added on condition
  that they are not in the output yet; a file passed directly is appended each time it is
  passed. So a path is in the output at least as often as it is passed directly as a file
  and at most once more often than that, hence at most once when it is never passed
  directly.
\<close>

theorem resolve_initial_paths_count:
  assumes "resolve_initial_paths slow fs initial_paths = Inr result"
  shows "count_list (filter (is_file fs) initial_paths) pth \<le> count_list result pth
    \<and> count_list result pth \<le> Suc (count_list (filter (is_file fs) initial_paths) pth)"
proof -
  from assms have b: "resolve_initial_paths_body fs initial_paths = Inr result"
    by (auto simp: resolve_initial_paths_def split: if_splits sum.splits)
  show ?thesis
  proof (cases "initial_paths = []")
    case True
    with b show ?thesis by (simp add: resolve_initial_paths_body_def)
  next
    case False
    with b have "resolve_initial_paths_loop fs initial_paths [] {} = Inr result"
      by (simp add: resolve_initial_paths_body_def)
    from resolve_initial_paths_loop_count [OF this, of pth] show ?thesis by simp
  qed
qed

theorem resolve_initial_paths_count_witness:
  "resolve_initial_paths False fs_one_file [[''/'', ''d''], [''/'', ''d'', ''f.py'']]
     = Inr [[''/'', ''d'', ''f.py''], [''/'', ''d'', ''f.py'']]
   \<and> count_list [[''/'', ''d'', ''f.py''], [''/'', ''d'', ''f.py'']] [''/'', ''d'', ''g.py''] \<le> 1
   \<and> 1 \<le> count_list [[''/'', ''d'', ''f.py''], [''/'', ''d'', ''f.py'']] [''/'', ''d'', ''f.py'']
   \<and> count_list [[''/'', ''d'', ''f.py''], [''/'', ''d'', ''f.py'']] [''/'', ''d'', ''f.py''] \<le> 2"
proof -
  have h: "resolve_initial_paths False fs_one_file [[''/'', ''d''], [''/'', ''d'', ''f.py'']]
     = Inr [[''/'', ''d'', ''f.py''], [''/'', ''d'', ''f.py'']]"
    by (simp add: resolve_initial_paths_def resolve_initial_paths_body_def fs_one_file_def
        is_absolute_def)
  from resolve_initial_paths_count [OF h, of "[''/'', ''d'', ''g.py'']"]
    resolve_initial_paths_count [OF h, of "[''/'', ''d'', ''f.py'']"]
  show ?thesis using h by (simp add: fs_one_file_def)
qed

text \<open>
  C4 does not hold as stated: of two lines that declare the package \<^verbatim>\<open>a\<close>, the
  mapping keeps the requirement of the second.
\<close>

theorem parse_requirements_second_line_kept:
  "parse_requirements
     [Inr \<lparr>parsed_name = Some ''a'', parsed_line = ''a==1'', parsed_uri = None\<rparr>,
      Inr \<lparr>parsed_name = Some ''a'', parsed_line = ''a==2'', parsed_uri = None\<rparr>] ''<unknown>''
     = Inr [(''a'', \<lparr>name = ''a'', line = ''a==2'' @ [newline]\<rparr>)]
   \<and> Requirement_body ''a'' ''a==1'' \<noteq> \<lparr>name = ''a'', line = ''a==2'' @ [newline]\<rparr>"
  by (simp add: parse_requirements_def parse_requirements_body_def Requirement_init_def
      Requirement_body_def endswith_newline_def strip_def isspace_def Let_def newline_def)

lemma first_occurrences_mem:
  "k \<in> set A \<Longrightarrow> first_occurrences (A @ k # R) = first_occurrences (A @ R)"
proof -
  assume k: "k \<in> set A"
  have "remdups (X @ k # rev A) = remdups (X @ rev A)" for X
    using k by (induction X) auto
  then show ?thesis by (simp add: first_occurrences_def)
qed

lemma Requirement_init_Inr:
  assumes "Requirement_init nm ln = Inr r"
  shows "r = Requirement_body nm ln" and "name r = nm"
  using assms by (auto simp: Requirement_init_def Let_def Requirement_body_def split: if_splits)

lemma first_occurrences_distinct:
  "distinct xs \<Longrightarrow> first_occurrences xs = xs"
  by (simp add: first_occurrences_def distinct_remdups_id)

lemma parse_requirements_loop_keys:
  "parse_requirements_loop (map Inr rs) filename acc = Inr res \<Longrightarrow> distinct (map fst acc) \<Longrightarrow>
   map Some (map fst res) = first_occurrences (map Some (map fst acc) @ map parsed_name rs)"
proof (induction rs arbitrary: acc)
  case Nil
  then show ?case by (simp add: first_occurrences_distinct distinct_map inj_on_def)
next
  case (Cons r rs)
  from Cons.prems obtain nm q where nm: "parsed_name r = Some nm"
    and q: "Requirement_init nm (parsed_line r) = Inr q"
    and rest: "parse_requirements_loop (map Inr rs) filename (AList.update (name q) q acc) = Inr res"
    by (auto split: option.splits sum.splits)
  from Requirement_init_Inr(2)[OF q] have qn: "name q = nm" .
  from Cons.IH [OF rest distinct_update [OF Cons.prems(2)]]
  have "map Some (map fst res) = first_occurrences (map Some (map fst (AList.update nm q acc)) @ map parsed_name rs)"
    by (simp add: qn)
  then show ?case
    using nm by (auto simp: update_keys first_occurrences_mem image_iff)
qed

lemma parse_requirements_loop_values:
  "parse_requirements_loop (map Inr rs) filename acc = Inr res \<Longrightarrow>
   map_of res = map_of acc ++ map_of (rev (map (\<lambda>r. (the (parsed_name r), Requirement_body (the (parsed_name r)) (parsed_line r))) rs))"
proof (induction rs arbitrary: acc)
  case Nil
  then show ?case by simp
next
  case (Cons r rs)
  from Cons.prems obtain nm q where nm: "parsed_name r = Some nm"
    and q: "Requirement_init nm (parsed_line r) = Inr q"
    and rest: "parse_requirements_loop (map Inr rs) filename (AList.update (name q) q acc) = Inr res"
    by (auto split: option.splits sum.splits)
  from Requirement_init_Inr [OF q] have qb: "q = Requirement_body nm (parsed_line r)" and qn: "name q = nm" .
  let ?kv = "\<lambda>r. (the (parsed_name r), Requirement_body (the (parsed_name r)) (parsed_line r))"
  from Cons.IH [OF rest] have "map_of res = map_of (AList.update nm q acc) ++ map_of (rev (map ?kv rs))"
    by (simp add: qn)
  also have "map_of (AList.update nm q acc) = map_of acc ++ map_of [(nm, q)]"
    by (simp add: update_conv')
  also have "(map_of acc ++ map_of [(nm, q)]) ++ map_of (rev (map ?kv rs))
     = map_of acc ++ (map_of [(nm, q)] ++ map_of (rev (map ?kv rs)))"
    by simp
  also have "map_of [(nm, q)] ++ map_of (rev (map ?kv rs)) = map_of (rev (map ?kv (r # rs)))"
    using nm qb by (simp del: map_of.simps)
  finally show ?case .
qed

lemma map_of_rev_last:
  "map_of (rev (map (\<lambda>r. (f r, g r)) rs)) k =
     (if k \<in> f ` set rs then Some (g (last (filter (\<lambda>r. f r = k) rs))) else None)"
  by (induction rs rule: rev_induct) auto

lemma parse_requirements_loop_names:
  "parse_requirements_loop (map Inr rs) filename acc = Inr res \<Longrightarrow> r \<in> set rs \<Longrightarrow>
   parsed_name r \<noteq> None"
proof (induction rs arbitrary: acc)
  case Nil
  then show ?case by simp
next
  case (Cons x rs)
  from Cons.prems(1) obtain nm q where nm: "parsed_name x = Some nm"
    and rest: "parse_requirements_loop (map Inr rs) filename (AList.update (name q) q acc) = Inr res"
    by (auto split: option.splits sum.splits)
  show ?case
  proof (cases "r = x")
    case True
    with nm show ?thesis by simp
  next
    case False
    with Cons.prems(2) have "r \<in> set rs" by simp
    from Cons.IH [OF rest this] show ?thesis .
  qed
qed

text \<open>
  C4, amended. When the parser raises nowhere and the requirements \<open>rs\<close> it yields are
  accepted, the keys of the mapping are the declared names in the order of their first
  occurrences, and the requirement kept for a name is the one made from the last line
  that declares it: an assignment to a key that is present replaces the value and leaves
  the key where it is.
\<close>

theorem parse_requirements_last_wins:
  assumes "parse_requirements (map Inr rs) filename = Inr result"
  shows "map Some (map fst result) = first_occurrences (map parsed_name rs)
    \<and> map_of result key =
        (if Some key \<in> set (map parsed_name rs)
         then Some (Requirement_body key (parsed_line (last [r \<leftarrow> rs. parsed_name r = Some key])))
         else None)"
proof -
  from assms have loop: "parse_requirements_loop (map Inr rs) filename [] = Inr result"
    by (auto simp: parse_requirements_def parse_requirements_body_def split: sum.splits if_splits)
  have names: "parsed_name r \<noteq> None" if "r \<in> set rs" for r
    using parse_requirements_loop_names [OF loop that] .
  let ?f = "\<lambda>r. the (parsed_name r)"
  let ?g = "\<lambda>r. Requirement_body (the (parsed_name r)) (parsed_line r)"
  have filt: "[r \<leftarrow> rs. ?f r = key] = [r \<leftarrow> rs. parsed_name r = Some key]"
    by (rule filter_cong) (use names in auto)
  have mem: "key \<in> ?f ` set rs \<longleftrightarrow> Some key \<in> set (map parsed_name rs)"
    using names by (force simp: image_iff)
  have "map_of result key = map_of (rev (map (\<lambda>r. (?f r, ?g r)) rs)) key"
    using parse_requirements_loop_values [OF loop] by simp
  also have "\<dots> = (if key \<in> ?f ` set rs then Some (?g (last [r \<leftarrow> rs. ?f r = key])) else None)"
    by (rule map_of_rev_last)
  finally have v: "map_of result key =
     (if Some key \<in> set (map parsed_name rs)
      then Some (?g (last [r \<leftarrow> rs. parsed_name r = Some key])) else None)"
    by (simp only: filt mem)
  have "?g (last [r \<leftarrow> rs. parsed_name r = Some key])
      = Requirement_body key (parsed_line (last [r \<leftarrow> rs. parsed_name r = Some key]))"
    if "Some key \<in> set (map parsed_name rs)"
  proof -
    from that have ne: "[r \<leftarrow> rs. parsed_name r = Some key] \<noteq> []"
      by (auto simp: filter_empty_conv)
    from last_in_set [OF ne] have "parsed_name (last [r \<leftarrow> rs. parsed_name r = Some key]) = Some key"
      by simp
    then show ?thesis by simp
  qed
  with v have "map_of result key =
     (if Some key \<in> set (map parsed_name rs)
      then Some (Requirement_body key (parsed_line (last [r \<leftarrow> rs. parsed_name r = Some key]))) else None)"
    by simp
  moreover from parse_requirements_loop_keys [OF loop] have "map Some (map fst result) = first_occurrences (map parsed_name rs)"
    by simp
  ultimately show ?thesis by simp
qed

theorem parse_requirements_last_wins_witness:
  "parse_requirements (map Inr
     [\<lparr>parsed_name = Some ''a'', parsed_line = ''a==1'', parsed_uri = None\<rparr>,
      \<lparr>parsed_name = Some ''b'', parsed_line = ''b==3'', parsed_uri = None\<rparr>,
      \<lparr>parsed_name = Some ''a'', parsed_line = ''a==2'', parsed_uri = None\<rparr>]) ''<unknown>''
   = Inr [(''a'', \<lparr>name = ''a'', line = ''a==2'' @ [newline]\<rparr>),
          (''b'', \<lparr>name = ''b'', line = ''b==3'' @ [newline]\<rparr>)]
   \<and> map_of [(''a'', \<lparr>name = ''a'', line = ''a==2'' @ [newline]\<rparr>),
          (''b'', \<lparr>name = ''b'', line = ''b==3'' @ [newline]\<rparr>)] ''a''
     = Some (Requirement_body ''a'' ''a==2'')"
proof -
  have h: "parse_requirements (map Inr
     [\<lparr>parsed_name = Some ''a'', parsed_line = ''a==1'', parsed_uri = None\<rparr>,
      \<lparr>parsed_name = Some ''b'', parsed_line = ''b==3'', parsed_uri = None\<rparr>,
      \<lparr>parsed_name = Some ''a'', parsed_line = ''a==2'', parsed_uri = None\<rparr>]) ''<unknown>''
   = Inr [(''a'', \<lparr>name = ''a'', line = ''a==2'' @ [newline]\<rparr>),
          (''b'', \<lparr>name = ''b'', line = ''b==3'' @ [newline]\<rparr>)]"
    by (simp add: parse_requirements_def parse_requirements_body_def Requirement_init_def
      Requirement_body_def endswith_newline_def strip_def isspace_def Let_def newline_def)
  from parse_requirements_last_wins [OF h, of "''a''"] show ?thesis using h by simp
qed

subsection \<open>The traversal of \<open>collect_dependency_graph\<close>\<close>

lemma set_add_idem: "set_add x (set_add x xs) = set_add x xs"
  by (simp add: set_add_def)

lemma collect_modules_result:
  "collect_modules stdlib root_dir rel_pth mods package stack = Inr (p2, s2) \<Longrightarrow>
   requirements p2 = requirements package
   \<and> unresolved_modules p2 = unresolved_modules package
   \<and> rel_paths p2 = (if \<exists>n f. (n, Some f) \<in> set mods then set_add rel_pth (rel_paths package)
                     else rel_paths package)
   \<and> set s2 \<subseteq> set stack \<union> {r. \<exists>n f. (n, Some f) \<in> set mods \<and> relative_to f root_dir = Inr r}"
proof (induction mods arbitrary: package stack)
  case Nil
  then show ?case by auto
next
  case (Cons m mods)
  obtain nm fl where m: "m = (nm, fl)" by (cases m)
  show ?case
  proof (cases fl)
    case None
    with Cons.prems m
    have "collect_modules stdlib root_dir rel_pth mods package stack = Inr (p2, s2)"
      by (auto split: if_splits)
    from Cons.IH [OF this] show ?thesis using m None by auto
  next
    case (Some f)
    with Cons.prems m obtain r where r: "relative_to f root_dir = Inr r"
      and rest: "collect_modules stdlib root_dir rel_pth mods
         (package\<lparr>rel_paths := set_add rel_pth (rel_paths package)\<rparr>) (stack @ [r]) = Inr (p2, s2)"
      by (auto split: sum.splits)
    from Cons.IH [OF rest]
    have a: "requirements p2 = requirements package"
      and b: "unresolved_modules p2 = unresolved_modules package"
      and c: "rel_paths p2 = (if \<exists>n f. (n, Some f) \<in> set mods
                then set_add rel_pth (set_add rel_pth (rel_paths package))
                else set_add rel_pth (rel_paths package))"
      and d: "set s2 \<subseteq> set (stack @ [r])
                \<union> {r. \<exists>n f. (n, Some f) \<in> set mods \<and> relative_to f root_dir = Inr r}"
      by simp_all
    have e: "\<exists>n f. (n, Some f) \<in> set (m # mods)" using m Some by auto
    from c e have c': "rel_paths p2 = (if \<exists>n f. (n, Some f) \<in> set (m # mods)
                then set_add rel_pth (rel_paths package) else rel_paths package)"
      by (simp add: set_add_idem)
    have "set (stack @ [r])
            \<union> {r. \<exists>n f. (n, Some f) \<in> set mods \<and> relative_to f root_dir = Inr r}
          \<subseteq> set stack
            \<union> {r. \<exists>n f. (n, Some f) \<in> set (m # mods) \<and> relative_to f root_dir = Inr r}"
    proof
      fix x
      assume "x \<in> set (stack @ [r])
            \<union> {r. \<exists>n f. (n, Some f) \<in> set mods \<and> relative_to f root_dir = Inr r}"
      then consider "x \<in> set stack" | "x = r"
        | "\<exists>n f. (n, Some f) \<in> set mods \<and> relative_to f root_dir = Inr x" by auto
      then show "x \<in> set stack
            \<union> {r. \<exists>n f. (n, Some f) \<in> set (m # mods) \<and> relative_to f root_dir = Inr r}"
      proof cases
        case 1
        then show ?thesis by simp
      next
        case 2
        have "(nm, Some f) \<in> set (m # mods)" using m Some by simp
        with r 2 show ?thesis by blast
      next
        case 3
        then obtain n g where "(n, Some g) \<in> set mods" "relative_to g root_dir = Inr x" by blast
        then have "(n, Some g) \<in> set (m # mods)" by simp
        with \<open>relative_to g root_dir = Inr x\<close> show ?thesis by blast
      qed
    qed
    with d have d': "set s2 \<subseteq> set stack
            \<union> {r. \<exists>n f. (n, Some f) \<in> set (m # mods) \<and> relative_to f root_dir = Inr r}"
      by (rule subset_trans)
    from a b c' d' show ?thesis by (intro conjI)
  qed
qed

lemma collect_badmodules_rel_paths:
  "collect_badmodules registry m2r stdlib rel_pth bad package uset = Inr (p1, u1) \<Longrightarrow>
   rel_paths p1 = rel_paths package"
proof (induction bad arbitrary: package uset)
  case Nil
  then show ?case by simp
next
  case (Cons m bad)
  show ?case
  proof (cases "map_of m2r m")
    case None
    with Cons.prems show ?thesis
      by (simp split: if_splits) (use Cons.IH in force)+
  next
    case (Some req_name)
    with Cons.prems show ?thesis
      by (simp split: if_splits option.splits) (use Cons.IH in force)+
  qed
qed

lemma collect_badmodules_error:
  "collect_badmodules registry m2r stdlib rel_pth bad package uset = Inl e \<Longrightarrow> \<exists>k. e = KeyError k"
proof (induction bad arbitrary: package uset)
  case Nil
  then show ?case by simp
next
  case (Cons m bad)
  show ?case
  proof (cases "map_of m2r m")
    case None
    with Cons.prems show ?thesis
      by (simp split: if_splits) (use Cons.IH in force)+
  next
    case (Some req_name)
    with Cons.prems show ?thesis
      by (simp split: if_splits option.splits) (use Cons.IH in force)+
  qed
qed

lemma collect_modules_error:
  "collect_modules stdlib root_dir rel_pth mods package stack = Inl e \<Longrightarrow>
   (\<exists>m. e = AssertionError_no_file m) \<or> (\<exists>a b. e = RelativeToError a b)"
proof (induction mods arbitrary: package stack)
  case Nil
  then show ?case by simp
next
  case (Cons m mods)
  obtain nm fl where m: "m = (nm, fl)" by (cases m)
  show ?case
  proof (cases fl)
    case None
    with Cons.prems m show ?thesis
      by (simp split: if_splits) (use Cons.IH in force)+
  next
    case (Some f)
    show ?thesis
    proof (cases "relative_to f root_dir")
      case (Inl e')
      with Cons.prems m Some show ?thesis by (auto simp: relative_to_def split: if_splits)
    next
      case (Inr r)
      with Cons.prems m Some show ?thesis by simp (use Cons.IH in force)
    qed
  qed
qed

lemma collect_step_Inr:
  assumes "collect_step load_file stdlib root_dir registry m2r package stack uset = Inr (p', s', u')"
  shows "(last stack \<in> set (rel_paths package) \<and> p' = package \<and> s' = butlast stack \<and> u' = uset)
    \<or> (last stack \<notin> set (rel_paths package)
       \<and> (\<exists>mf p1. load_file root_dir (joinpath root_dir (last stack)) = Some mf
            \<and> collect_badmodules registry m2r stdlib (last stack) (badmodules mf) package uset
                = Inr (p1, u')
            \<and> collect_modules stdlib root_dir (last stack) (modules mf) p1 (butlast stack)
                = Inr (p', s')
            \<and> card (set (rel_paths p')) = card (set (rel_paths package)) + 1))"
  using assms unfolding collect_step_def Let_def
  by (auto split: if_splits option.splits sum.splits prod.splits)

lemma collect_step_no_length_error:
  assumes own: "\<And>pth mf. load_file root_dir pth = Some mf \<Longrightarrow> \<exists>n. (n, Some pth) \<in> set (modules mf)"
  shows "collect_step load_file stdlib root_dir registry m2r package stack uset
           \<noteq> Inl (AssertionError ''Expected to add only one dependency at a step.'')"
proof
  let ?x = "last stack"
  assume err: "collect_step load_file stdlib root_dir registry m2r package stack uset
           = Inl (AssertionError ''Expected to add only one dependency at a step.'')"
  from err have nv: "?x \<notin> set (rel_paths package)"
    unfolding collect_step_def Let_def by (auto split: if_splits)
  from err obtain mf where mf: "load_file root_dir (joinpath root_dir ?x) = Some mf"
    unfolding collect_step_def Let_def by (auto split: if_splits option.splits)
  from err nv mf obtain p1 u1 where
    bad: "collect_badmodules registry m2r stdlib ?x (badmodules mf) package uset = Inr (p1, u1)"
    unfolding collect_step_def Let_def
    by (auto split: if_splits sum.splits dest: collect_badmodules_error)
  from err nv mf bad obtain p2 s2 where
    mods: "collect_modules stdlib root_dir ?x (modules mf) p1 (butlast stack) = Inr (p2, s2)"
    and len: "card (set (rel_paths package)) + 1 \<noteq> card (set (rel_paths p2))"
    unfolding collect_step_def Let_def
    by (auto split: if_splits sum.splits dest: collect_modules_error)
  from own [OF mf] have ex: "\<exists>n f. (n, Some f) \<in> set (modules mf)" by blast
  from collect_modules_result [OF mods] ex
  have "rel_paths p2 = set_add ?x (rel_paths p1)" by simp
  also have "rel_paths p1 = rel_paths package" by (rule collect_badmodules_rel_paths [OF bad])
  finally have "rel_paths p2 = rel_paths package @ [?x]" using nv by (simp add: set_add_def)
  with nv have "card (set (rel_paths p2)) = card (set (rel_paths package)) + 1" by simp
  with len show False by simp
qed

lemma collect_loop_Inl:
  assumes "collect_loop load_file stdlib root_dir registry m2r package stack uset = Some (Inl e)"
  shows "\<exists>package' stack' uset'.
           collect_step load_file stdlib root_dir registry m2r package' stack' uset' = Inl e"
proof -
  let ?P = "\<lambda>lf sl rd rg mr (pk :: Package) (st :: path list) (us :: string set)
      (y :: error + Package).
     \<forall>e. y = Inl e \<longrightarrow> (\<exists>pk' st' us'. collect_step lf sl rd rg mr pk' st' us' = Inl e)"
  have "?P load_file stdlib root_dir registry m2r package stack uset (Inl e)"
  proof (rule collect_loop.raw_induct [where P = ?P, OF _ assms])
    fix loop lf sl rd rg mr pk st us y
    assume IH: "\<And>lf sl rd rg mr pk st us y. loop lf sl rd rg mr pk st us = Some y
        \<Longrightarrow> ?P lf sl rd rg mr pk st us y"
    assume eq: "(if st = [] then Some (Inr pk)
      else case collect_step lf sl rd rg mr pk st us of
             Inl e \<Rightarrow> Some (Inl e)
           | Inr (package', stack', unresolved_module_set') \<Rightarrow>
               loop lf sl rd rg mr package' stack' unresolved_module_set') = Some y"
    show "?P lf sl rd rg mr pk st us y"
    proof (cases "st = []")
      case True
      with eq show ?thesis by auto
    next
      case False
      show ?thesis
      proof (cases "collect_step lf sl rd rg mr pk st us")
        case (Inl e')
        with eq False show ?thesis by auto
      next
        case (Inr t)
        obtain pk' st' us' where t: "t = (pk', st', us')" by (cases t)
        with eq Inr False have "loop lf sl rd rg mr pk' st' us' = Some y" by simp
        from IH [OF this] show ?thesis .
      qed
    qed
  qed
  then show ?thesis by simp
qed

lemma collect_step_visit:
  assumes step: "collect_step load_file stdlib root_dir registry m2r package stack uset = Inr (p', s', u')"
  shows "(last stack \<in> set (rel_paths package) \<and> p' = package \<and> s' = butlast stack \<and> u' = uset)
    \<or> (last stack \<notin> set (rel_paths package)
       \<and> rel_paths p' = rel_paths package @ [last stack]
       \<and> set s' \<subseteq> set (butlast stack)
            \<union> {r. \<exists>mf n f. load_file root_dir (joinpath root_dir (last stack)) = Some mf
                   \<and> (n, Some f) \<in> set (modules mf) \<and> relative_to f root_dir = Inr r})"
proof (cases "last stack \<in> set (rel_paths package)")
  case True
  with collect_step_Inr [OF step] show ?thesis by simp
next
  case False
  let ?x = "last stack"
  from collect_step_Inr [OF step] False obtain mf p1 where
    mf: "load_file root_dir (joinpath root_dir ?x) = Some mf"
    and bad: "collect_badmodules registry m2r stdlib ?x (badmodules mf) package uset = Inr (p1, u')"
    and mods: "collect_modules stdlib root_dir ?x (modules mf) p1 (butlast stack) = Inr (p', s')"
    and len: "card (set (rel_paths p')) = card (set (rel_paths package)) + 1"
    by auto
  have p1: "rel_paths p1 = rel_paths package" by (rule collect_badmodules_rel_paths [OF bad])
  from collect_modules_result [OF mods]
  have rp: "rel_paths p' = (if \<exists>n f. (n, Some f) \<in> set (modules mf)
              then set_add ?x (rel_paths package) else rel_paths package)"
    and st: "set s' \<subseteq> set (butlast stack)
              \<union> {r. \<exists>n f. (n, Some f) \<in> set (modules mf) \<and> relative_to f root_dir = Inr r}"
    by (simp_all add: p1)
  from rp len have "rel_paths p' = set_add ?x (rel_paths package)"
    by (auto split: if_splits)
  with False have a: "rel_paths p' = rel_paths package @ [?x]" by (simp add: set_add_def)
  have "{r. \<exists>n f. (n, Some f) \<in> set (modules mf) \<and> relative_to f root_dir = Inr r}
      \<subseteq> {r. \<exists>mf n f. load_file root_dir (joinpath root_dir ?x) = Some mf
                   \<and> (n, Some f) \<in> set (modules mf) \<and> relative_to f root_dir = Inr r}"
    using mf by blast
  with st have b: "set s' \<subseteq> set (butlast stack)
            \<union> {r. \<exists>mf n f. load_file root_dir (joinpath root_dir ?x) = Some mf
                   \<and> (n, Some f) \<in> set (modules mf) \<and> relative_to f root_dir = Inr r}"
    by blast
  from False a b show ?thesis by simp
qed

lemma collect_loop_terminates:
  assumes fin: "\<And>pth mf n f r. load_file root_dir pth = Some mf \<Longrightarrow> (n, Some f) \<in> set (modules mf)
       \<Longrightarrow> relative_to f root_dir = Inr r \<Longrightarrow> r \<in> F"
    and F: "finite F"
    and stack: "set stack \<subseteq> F"
  shows "\<exists>y. collect_loop load_file stdlib root_dir registry m2r package stack uset = Some y"
  using stack
proof (induction "card (F - set (rel_paths package))" arbitrary: package stack uset rule: less_induct)
  case less
  from less.prems show ?case
  proof (induction stack arbitrary: uset rule: rev_induct)
    case Nil
    show ?case by (subst collect_loop.simps) simp
  next
    case (snoc x xs)
    have xs: "set xs \<subseteq> F" and x: "x \<in> F" using snoc.prems by auto
    show ?case
    proof (cases "collect_step load_file stdlib root_dir registry m2r package (xs @ [x]) uset")
      case (Inl e)
      then show ?thesis by (subst collect_loop.simps) simp
    next
      case (Inr t)
      obtain p' s' u' where t: "t = (p', s', u')" by (cases t)
      have unfold: "collect_loop load_file stdlib root_dir registry m2r package (xs @ [x]) uset
          = collect_loop load_file stdlib root_dir registry m2r p' s' u'"
        using Inr t by (subst collect_loop.simps) simp
      from collect_step_visit [OF Inr [unfolded t]]
      consider (skip) "p' = package" "s' = xs"
        | (visit) "x \<notin> set (rel_paths package)" "rel_paths p' = rel_paths package @ [x]"
            "set s' \<subseteq> set xs
              \<union> {r. \<exists>mf n f. load_file root_dir (joinpath root_dir x) = Some mf
                   \<and> (n, Some f) \<in> set (modules mf) \<and> relative_to f root_dir = Inr r}"
        by auto
      then show ?thesis
      proof cases
        case skip
        from snoc.IH [OF xs, of u'] show ?thesis by (simp add: unfold skip)
      next
        case visit
        have eq: "F - set (rel_paths p') = (F - set (rel_paths package)) - {x}"
          using visit(2) by auto
        have mem: "x \<in> F - set (rel_paths package)" using x visit(1) by simp
        have "finite (F - set (rel_paths package))" using F by simp
        from card_Diff1_less [OF this mem]
        have less': "card (F - set (rel_paths p')) < card (F - set (rel_paths package))"
          by (simp only: eq)
        have "set s' \<subseteq> F" using visit(3) xs fin by blast
        from less.hyps [OF less' this, of u'] show ?thesis by (simp add: unfold)
      qed
    qed
  qed
qed

lemma finder_cycle_run:
  "collect_dependency_graph slow finder_cycle {''os.path''} [''/'', ''src''] [[''a.py'']]
     [(''pillow'', pillow)] [(''PIL'', ''pillow'')] = Some (Inr package_cycle)"
  by (simp add: collect_dependency_graph_def collect_dependency_graph_body_def
      missing_requirements_def missing_requirements_body_def is_absolute_def collect_loop.simps
      collect_step_def finder_cycle_def Package_init_def joinpath_def relative_to_def
      set_add_def Let_def package_cycle_def pillow_def)

text \<open>
  C1. \<^verbatim>\<open>ModuleFinder.load_file(pathname)\<close> registers the loaded file itself in
  \<^verbatim>\<open>modules\<close>, with \<^verbatim>\<open>__file__\<close> set to \<^verbatim>\<open>pathname\<close>; this is the assumption on the
  finder. Then the assertion "Expected to add only one dependency at a step." fails in no
  iteration, from whatever package, stack and set of unresolved names the iteration
  starts, hence in no run of \<open>collect_dependency_graph\<close>; and an iteration that returns
  after processing a path not visited before has added that path, and nothing else, to
  \<open>rel_paths\<close>.
\<close>

theorem collect_dependency_graph_adds_one_path:
  assumes own: "\<And>pth mf. load_file root_dir pth = Some mf
                  \<Longrightarrow> \<exists>n. (n, Some pth) \<in> set (modules mf)"
  shows "collect_dependency_graph slow load_file stdlib root_dir seeds registry m2r
           \<noteq> Some (Inl (AssertionError ''Expected to add only one dependency at a step.''))
    \<and> collect_step load_file stdlib root_dir registry m2r package stack uset
           \<noteq> Inl (AssertionError ''Expected to add only one dependency at a step.'')
    \<and> (last stack \<notin> set (rel_paths package) \<longrightarrow>
         collect_step load_file stdlib root_dir registry m2r package stack uset = Inr (p', s', u')
         \<longrightarrow> rel_paths p' = rel_paths package @ [last stack])"
proof -
  let ?err = "AssertionError ''Expected to add only one dependency at a step.''"
  have step: "collect_step load_file stdlib root_dir registry m2r pk st us \<noteq> Inl ?err" for pk st us
    by (rule collect_step_no_length_error [OF own])
  have loop: "collect_loop load_file stdlib root_dir registry m2r pk st us \<noteq> Some (Inl ?err)"
    for pk st us
    using collect_loop_Inl [of load_file stdlib root_dir registry m2r pk st us ?err] step by blast
  have "collect_dependency_graph slow load_file stdlib root_dir seeds registry m2r
           \<noteq> Some (Inl ?err)"
    using loop [of Package_init seeds "{}"]
    by (auto simp: collect_dependency_graph_def collect_dependency_graph_body_def
        split: option.splits sum.splits)
  moreover have "rel_paths p' = rel_paths package @ [last stack]"
    if "last stack \<notin> set (rel_paths package)"
      and "collect_step load_file stdlib root_dir registry m2r package stack uset = Inr (p', s', u')"
    using collect_step_visit [OF that(2)] that(1) by simp
  ultimately show ?thesis using step by blast
qed

text \<open>
  The assumption on the finder is needed: the path is added to \<open>rel_paths\<close> inside the
  loop over the finder's modules, so a finder that reported no module with a file would
  make the assertion fail.
\<close>

lemma collect_step_length_error_without_modules:
  "collect_step (\<lambda>root_dir pathname. Some \<lparr>badmodules = [], modules = []\<rparr>) {} [''/'', ''src'']
     [] [] Package_init [[''a.py'']] {}
   = Inl (AssertionError ''Expected to add only one dependency at a step.'')"
  by (simp add: collect_step_def Package_init_def is_absolute_def joinpath_def Let_def)

lemma finder_cycle_own:
  "finder_cycle root_dir pth = Some mf \<Longrightarrow> \<exists>n. (n, Some pth) \<in> set (modules mf)"
  by (auto simp: finder_cycle_def split: if_splits)

theorem collect_dependency_graph_adds_one_path_witness:
  "collect_dependency_graph True finder_cycle {''os.path''} [''/'', ''src''] [[''a.py'']]
     [(''pillow'', pillow)] [(''PIL'', ''pillow'')] = Some (Inr package_cycle)
   \<and> collect_step finder_cycle {''os.path''} [''/'', ''src''] [(''pillow'', pillow)]
       [(''PIL'', ''pillow'')] Package_init [[''a.py'']] {}
     = Inr (\<lparr>requirements = [], rel_paths = [[''a.py'']],
             unresolved_modules = [\<lparr>um_name = ''missing'', imported_from = [''a.py'']\<rparr>]\<rparr>,
            [[''a.py''], [''b.py'']], {''missing''})"
proof -
  have step: "collect_step finder_cycle {''os.path''} [''/'', ''src''] [(''pillow'', pillow)]
       [(''PIL'', ''pillow'')] Package_init [[''a.py'']] {}
     = Inr (\<lparr>requirements = [], rel_paths = [[''a.py'']],
             unresolved_modules = [\<lparr>um_name = ''missing'', imported_from = [''a.py'']\<rparr>]\<rparr>,
            [[''a.py''], [''b.py'']], {''missing''})"
    by (simp add: collect_step_def finder_cycle_def Package_init_def joinpath_def relative_to_def
      set_add_def Let_def is_absolute_def)
  note collect_dependency_graph_adds_one_path [of finder_cycle "[''/'', ''src'']" True "{''os.path''}" "[[''a.py'']]"
      "[(''pillow'', pillow)]" "[(''PIL'', ''pillow'')]" Package_init "[[''a.py'']]" "{}",
      OF finder_cycle_own]
  with step finder_cycle_run [of True] show ?thesis by simp
qed

text \<open>
  C3. When the files that the finder can report, taken relative to the root directory,
  all lie in one finite set (the code base is finite), \<open>collect_dependency_graph\<close>
  returns: with a package or with an exception, but it does not run for ever. Nothing is
  assumed about the import graph; the witness is the code base of two files importing
  each other.
\<close>

theorem collect_dependency_graph_terminates:
  assumes F: "finite F"
    and fin: "\<And>pth mf n f r. load_file root_dir pth = Some mf \<Longrightarrow> (n, Some f) \<in> set (modules mf)
       \<Longrightarrow> relative_to f root_dir = Inr r \<Longrightarrow> r \<in> F"
  shows "\<exists>y. collect_dependency_graph slow load_file stdlib root_dir seeds registry m2r = Some y"
proof -
  have "\<exists>y. collect_loop load_file stdlib root_dir registry m2r Package_init seeds {} = Some y"
  proof (rule collect_loop_terminates [where F = "F \<union> set seeds"])
    show "finite (F \<union> set seeds)" using F by simp
    show "set seeds \<subseteq> F \<union> set seeds" by simp
    show "r \<in> F \<union> set seeds"
      if "load_file root_dir pth = Some mf" "(n, Some f) \<in> set (modules mf)"
        "relative_to f root_dir = Inr r" for pth mf n f r
      using fin [OF that] by simp
  qed
  then obtain y where "collect_loop load_file stdlib root_dir registry m2r Package_init seeds {} = Some y"
    by blast
  then show ?thesis
    by (cases y) (auto simp: collect_dependency_graph_def collect_dependency_graph_body_def)
qed

lemma finder_cycle_files:
  "finder_cycle [''/'', ''src''] pth = Some mf \<Longrightarrow> (n, Some f) \<in> set (modules mf)
   \<Longrightarrow> relative_to f [''/'', ''src''] = Inr r \<Longrightarrow> r \<in> {[''a.py''], [''b.py'']}"
  by (auto simp: finder_cycle_def relative_to_def split: if_splits)

theorem collect_dependency_graph_terminates_witness:
  "(\<exists>y. collect_dependency_graph True finder_cycle {''os.path''} [''/'', ''src''] [[''a.py'']]
          [(''pillow'', pillow)] [(''PIL'', ''pillow'')] = Some y)
   \<and> collect_dependency_graph True finder_cycle {''os.path''} [''/'', ''src''] [[''a.py'']]
          [(''pillow'', pillow)] [(''PIL'', ''pillow'')] = Some (Inr package_cycle)"
proof -
  have "\<exists>y. collect_dependency_graph True finder_cycle {''os.path''} [''/'', ''src''] [[''a.py'']]
          [(''pillow'', pillow)] [(''PIL'', ''pillow'')] = Some y"
    by (rule collect_dependency_graph_terminates [where F = "{[''a.py''], [''b.py'']}"])
      (simp, erule (2) finder_cycle_files)
  with finder_cycle_run [of True] show ?thesis by simp
qed

lemma collect_badmodules_unresolved:
  assumes "collect_badmodules registry m2r stdlib rel_pth bad package uset = Inr (p1, u1)"
    and "uset = um_name ` set (unresolved_modules package)"
    and "distinct (map um_name (unresolved_modules package))"
  shows "\<exists>new. unresolved_modules p1 = unresolved_modules package @ new
      \<and> u1 = um_name ` set (unresolved_modules p1)
      \<and> distinct (map um_name (unresolved_modules p1))
      \<and> (\<forall>um \<in> set new. imported_from um = rel_pth \<and> um_name um \<notin> uset
            \<and> um_name um \<in> set (filter (\<lambda>m. map_of m2r m = None \<and> m \<notin> stdlib) bad))
      \<and> set (filter (\<lambda>m. map_of m2r m = None \<and> m \<notin> stdlib) bad) \<subseteq> u1"
  using assms
proof (induction bad arbitrary: package uset)
  case Nil
  then show ?case by auto
next
  case (Cons m bad)
  let ?U = "unresolved_modules package"
  let ?keep = "\<lambda>m. map_of m2r m = None \<and> m \<notin> stdlib"
  show ?case
  proof (cases "?keep m \<and> m \<notin> uset")
    case True
    let ?um = "\<lparr>um_name = m, imported_from = rel_pth\<rparr>"
    let ?pk = "package\<lparr>unresolved_modules := ?U @ [?um]\<rparr>"
    from True Cons.prems(1)
    have run: "collect_badmodules registry m2r stdlib rel_pth bad ?pk (insert m uset) = Inr (p1, u1)"
      by simp
    have u: "insert m uset = um_name ` set (unresolved_modules ?pk)"
      using Cons.prems(2) by simp
    have d: "distinct (map um_name (unresolved_modules ?pk))"
      using Cons.prems(2,3) True by simp
    from Cons.IH [OF run u d] obtain new where
      n1: "unresolved_modules p1 = unresolved_modules ?pk @ new"
      and n2: "u1 = um_name ` set (unresolved_modules p1)"
      and n3: "distinct (map um_name (unresolved_modules p1))"
      and n4: "\<forall>um \<in> set new. imported_from um = rel_pth \<and> um_name um \<notin> insert m uset
            \<and> um_name um \<in> set (filter ?keep bad)"
      and n5: "set (filter ?keep bad) \<subseteq> u1"
      by blast
    have a: "unresolved_modules p1 = ?U @ (?um # new)" using n1 by simp
    have b: "\<forall>um \<in> set (?um # new). imported_from um = rel_pth \<and> um_name um \<notin> uset
            \<and> um_name um \<in> set (filter ?keep (m # bad))"
      using n4 True by auto
    have "m \<in> u1" using n2 a by (auto simp: image_iff)
    with n5 have c: "set (filter ?keep (m # bad)) \<subseteq> u1" by auto
    from a n2 n3 b c show ?thesis by blast
  next
    case False
    with Cons.prems(1)
    have "\<exists>pk. collect_badmodules registry m2r stdlib rel_pth bad pk uset = Inr (p1, u1)
        \<and> unresolved_modules pk = ?U"
      by (auto split: option.splits if_splits)
    then obtain pk where
      run: "collect_badmodules registry m2r stdlib rel_pth bad pk uset = Inr (p1, u1)"
      and pk: "unresolved_modules pk = ?U" by blast
    have u: "uset = um_name ` set (unresolved_modules pk)" using Cons.prems(2) pk by simp
    have d: "distinct (map um_name (unresolved_modules pk))" using Cons.prems(3) pk by simp
    from Cons.IH [OF run u d] pk obtain new where
      n1: "unresolved_modules p1 = ?U @ new"
      and n2: "u1 = um_name ` set (unresolved_modules p1)"
      and n3: "distinct (map um_name (unresolved_modules p1))"
      and n4: "\<forall>um \<in> set new. imported_from um = rel_pth \<and> um_name um \<notin> uset
            \<and> um_name um \<in> set (filter ?keep bad)"
      and n5: "set (filter ?keep bad) \<subseteq> u1"
      by auto
    have b: "\<forall>um \<in> set new. imported_from um = rel_pth \<and> um_name um \<notin> uset
            \<and> um_name um \<in> set (filter ?keep (m # bad))"
      using n4 by auto
    have "uset \<subseteq> u1" using n1 n2 Cons.prems(2) by auto
    with n5 False have c: "set (filter ?keep (m # bad)) \<subseteq> u1" by auto
    from n1 n2 n3 b c show ?thesis by blast
  qed
qed

lemma find_snoc:
  "find P (xs @ [x]) = (case find P xs of None \<Rightarrow> (if P x then Some x else None) | Some y \<Rightarrow> Some y)"
  by (induction xs) auto

lemma collect_step_attribution:
  assumes inv: "attribution_inv load_file stdlib root_dir m2r package uset"
    and step: "collect_step load_file stdlib root_dir registry m2r package stack uset = Inr (p', s', u')"
  shows "attribution_inv load_file stdlib root_dir m2r p' u'"
proof (cases "last stack \<in> set (rel_paths package)")
  case True
  with collect_step_Inr [OF step] inv show ?thesis by simp
next
  case False
  let ?x = "last stack"
  let ?unc = "unclassified load_file stdlib root_dir m2r"
  let ?U = "unresolved_modules package"
  let ?V = "rel_paths package"
  from collect_step_Inr [OF step] False obtain mf p1 where
    mf: "load_file root_dir (joinpath root_dir ?x) = Some mf"
    and bad: "collect_badmodules registry m2r stdlib ?x (badmodules mf) package uset = Inr (p1, u')"
    and mods: "collect_modules stdlib root_dir ?x (modules mf) p1 (butlast stack) = Inr (p', s')"
    by auto
  from collect_step_visit [OF step] False have V': "rel_paths p' = ?V @ [?x]" by simp
  from collect_modules_result [OF mods] have U': "unresolved_modules p' = unresolved_modules p1"
    by simp
  have uncx: "?unc ?x = filter (\<lambda>m. map_of m2r m = None \<and> m \<notin> stdlib) (badmodules mf)"
    by (simp add: unclassified_def mf)
  from inv have i1: "uset = um_name ` set ?U" and i2: "distinct (map um_name ?U)"
    and i3: "\<forall>um \<in> set ?U. find (\<lambda>p. um_name um \<in> set (?unc p)) ?V = Some (imported_from um)"
    and i4: "\<forall>p \<in> set ?V. set (?unc p) \<subseteq> uset"
    unfolding attribution_inv_def by blast+
  from collect_badmodules_unresolved [OF bad i1 i2] obtain new where
    n1: "unresolved_modules p1 = ?U @ new"
    and n2: "u' = um_name ` set (unresolved_modules p1)"
    and n3: "distinct (map um_name (unresolved_modules p1))"
    and n4: "\<forall>um \<in> set new. imported_from um = ?x \<and> um_name um \<notin> uset
            \<and> um_name um \<in> set (?unc ?x)"
    and n5: "set (?unc ?x) \<subseteq> u'"
    unfolding uncx by blast
  have sub: "uset \<subseteq> u'" using i1 n1 n2 by auto
  have a: "find (\<lambda>p. um_name um \<in> set (?unc p)) (?V @ [?x]) = Some (imported_from um)"
    if "um \<in> set (?U @ new)" for um
  proof (cases "um \<in> set ?U")
    case True
    with i3 show ?thesis by (simp add: find_snoc)
  next
    case False
    with that have um: "um \<in> set new" by simp
    with n4 have f: "imported_from um = ?x" and nu: "um_name um \<notin> uset"
      and inx: "um_name um \<in> set (?unc ?x)" by auto
    from nu i4 have "find (\<lambda>p. um_name um \<in> set (?unc p)) ?V = None"
      by (auto simp: find_None_iff)
    with inx f show ?thesis by (simp add: find_snoc)
  qed
  have b: "set (?unc p) \<subseteq> u'" if "p \<in> set (?V @ [?x])" for p
    using that i4 sub n5 by auto
  show ?thesis
    unfolding attribution_inv_def V' U' n1
    using n2 n3 a b unfolding n1 by blast
qed

lemma collect_loop_invariant:
  assumes run: "collect_loop load_file stdlib root_dir registry m2r package stack uset = Some (Inr res)"
    and init: "I package uset"
    and step: "\<And>pk st us pk' st' us'. I pk us \<Longrightarrow>
        collect_step load_file stdlib root_dir registry m2r pk st us = Inr (pk', st', us')
        \<Longrightarrow> I pk' us'"
  shows "\<exists>us'. I res us'"
proof -
  let ?P = "\<lambda>lf sl rd rg mr (pk :: Package) (st :: path list) (us :: string set)
      (y :: error + Package).
     lf = load_file \<and> sl = stdlib \<and> rd = root_dir \<and> rg = registry \<and> mr = m2r \<longrightarrow> I pk us
       \<longrightarrow> (\<forall>res. y = Inr res \<longrightarrow> (\<exists>us'. I res us'))"
  have "?P load_file stdlib root_dir registry m2r package stack uset (Inr res)"
  proof (rule collect_loop.raw_induct [where P = ?P, OF _ run])
    fix loop lf sl rd rg mr pk st us y
    assume IH: "\<And>lf sl rd rg mr pk st us y. loop lf sl rd rg mr pk st us = Some y
        \<Longrightarrow> ?P lf sl rd rg mr pk st us y"
    assume eq: "(if st = [] then Some (Inr pk)
      else case collect_step lf sl rd rg mr pk st us of
             Inl e \<Rightarrow> Some (Inl e)
           | Inr (package', stack', unresolved_module_set') \<Rightarrow>
               loop lf sl rd rg mr package' stack' unresolved_module_set') = Some y"
    show "?P lf sl rd rg mr pk st us y"
    proof (intro impI allI)
      fix res'
      assume par: "lf = load_file \<and> sl = stdlib \<and> rd = root_dir \<and> rg = registry \<and> mr = m2r"
        and I: "I pk us" and y: "y = Inr res'"
      show "\<exists>us'. I res' us'"
      proof (cases "st = []")
        case True
        with eq y I show ?thesis by auto
      next
        case False
        show ?thesis
        proof (cases "collect_step lf sl rd rg mr pk st us")
          case (Inl e')
          with eq False y show ?thesis by auto
        next
          case (Inr t)
          obtain pk' st' us' where t: "t = (pk', st', us')" by (cases t)
          with eq Inr False have l: "loop lf sl rd rg mr pk' st' us' = Some y" by simp
          from step [OF I] Inr t par have "I pk' us'" by simp
          with IH [OF l] par y show ?thesis by simp
        qed
      qed
    qed
  qed
  with init show ?thesis by simp
qed

text \<open>
  C2. In the package that \<open>collect_dependency_graph\<close> returns no two unresolved modules
  have the same name, and each is attributed to the first file, in the order in which the
  traversal visited the files (the order of \<open>rel_paths\<close>), that imports it.
\<close>

theorem collect_dependency_graph_unresolved_unique:
  assumes "collect_dependency_graph slow load_file stdlib root_dir seeds registry m2r = Some (Inr pkg)"
  shows "distinct (map um_name (unresolved_modules pkg))
    \<and> (\<forall>um \<in> set (unresolved_modules pkg).
          find (\<lambda>p. um_name um \<in> set (unclassified load_file stdlib root_dir m2r p))
            (rel_paths pkg) = Some (imported_from um))"
proof -
  from assms
  have run: "collect_loop load_file stdlib root_dir registry m2r Package_init seeds {} = Some (Inr pkg)"
    by (auto simp: collect_dependency_graph_def collect_dependency_graph_body_def
        split: if_splits option.splits sum.splits)
  have init: "attribution_inv load_file stdlib root_dir m2r Package_init {}"
    by (simp add: attribution_inv_def Package_init_def)
  have "\<exists>us. attribution_inv load_file stdlib root_dir m2r pkg us"
  proof (rule collect_loop_invariant [where I = "attribution_inv load_file stdlib root_dir m2r",
        OF run init])
    fix pk st us pk' st' us'
    assume "attribution_inv load_file stdlib root_dir m2r pk us"
      and "collect_step load_file stdlib root_dir registry m2r pk st us = Inr (pk', st', us')"
    then show "attribution_inv load_file stdlib root_dir m2r pk' us'"
      by (rule collect_step_attribution)
  qed
  then
  obtain us where "attribution_inv load_file stdlib root_dir m2r pkg us" by blast
  then show ?thesis by (simp add: attribution_inv_def)
qed

theorem collect_dependency_graph_unresolved_unique_witness:
  "collect_dependency_graph True finder_cycle {''os.path''} [''/'', ''src''] [[''a.py'']]
     [(''pillow'', pillow)] [(''PIL'', ''pillow'')] = Some (Inr package_cycle)
   \<and> unresolved_modules package_cycle
       = [\<lparr>um_name = ''missing'', imported_from = [''a.py'']\<rparr>,
          \<lparr>um_name = ''other'', imported_from = [''b.py'']\<rparr>]
   \<and> distinct (map um_name (unresolved_modules package_cycle))
   \<and> find (\<lambda>p. ''missing''
           \<in> set (unclassified finder_cycle {''os.path''} [''/'', ''src''] [(''PIL'', ''pillow'')] p))
         (rel_paths package_cycle) = Some [''a.py'']
   \<and> ''missing''
         \<in> set (unclassified finder_cycle {''os.path''} [''/'', ''src''] [(''PIL'', ''pillow'')]
                 [''b.py''])"
proof -
  have b: "''missing''
         \<in> set (unclassified finder_cycle {''os.path''} [''/'', ''src''] [(''PIL'', ''pillow'')]
                 [''b.py''])"
    by (simp add: unclassified_def finder_cycle_def joinpath_def is_absolute_def)
  from collect_dependency_graph_unresolved_unique [OF finder_cycle_run [of True]] b
  show ?thesis
    using finder_cycle_run [of True]
    by (simp add: package_cycle_def unclassified_def finder_cycle_def joinpath_def
        is_absolute_def)
qed

end
